theory Spec2Isabelle
  imports Complex_Main "HOL-Library.Word"
begin

section \<open>JavaScript values\<close>

text \<open>
  A shallow embedding of \<^verbatim>\<open>server.js\<close>, the multi-room chat server. Every handler
  is one atomic step on an explicit server state: it takes the state and returns the new
  state, the acknowledgment passed to the client's callback (if any), the list of
  events delivered, each with the id of the socket that receives it, and the error that
  escapes the handler (if any).

  Strings are sequences of UTF-16 code units. \<open>U\<close> embeds an ASCII literal.
\<close>

type_synonym jschar = "16 word"
type_synonym jsstring = "jschar list"

definition U :: "string \<Rightarrow> jsstring" where
  "U s = map of_char s"

text \<open>
  A number is a double: a finite value, which is a rational (the two zeros are one
  value here: truthiness, the keys of a Map and JSON do not tell them apart), an
  infinity (an overflowing JSON literal parses to one) or NaN.
\<close>

datatype jsnum = Finite rat | PosInfinity | NegInfinity | NaN

text \<open>
  The values a handler can receive as an argument: what JSON carries, \<open>undefined\<close> for
  an argument or a property that is absent, and \<open>JAck\<close>, the acknowledgment function
  that the library appends to the arguments of an event the client sent with a
  callback (it is the only function that can arrive, and only as an argument itself).
  An array or an object is an object with an identity: the number it carries. Every
  array and object that arrives is a new one, so the environment gives each a number
  of its own; equality of values is then JavaScript's SameValueZero, by which a Map
  compares its keys. An object lists its own properties, each key once.
\<close>

datatype jsval =
    JUndefined
  | JNull
  | JBool bool
  | JNum jsnum
  | JStr jsstring
  | JArr nat "jsval list"
  | JObj nat "(jsstring \<times> jsval) list"
  | JAck

text \<open>
  \<^verbatim>\<open>!!v\<close>: the falsy values are undefined, null, false, 0, NaN and the empty string.
\<close>

fun truthy :: "jsval \<Rightarrow> bool" where
  "truthy JUndefined = False"
| "truthy JNull = False"
| "truthy (JBool b) = b"
| "truthy (JNum n) = (n \<noteq> Finite 0 \<and> n \<noteq> NaN)"
| "truthy (JStr s) = (s \<noteq> [])"
| "truthy (JArr a xs) = True"
| "truthy (JObj a fs) = True"
| "truthy JAck = True"

text \<open>\<^verbatim>\<open>typeof v === "string"\<close>\<close>

fun is_string :: "jsval \<Rightarrow> bool" where
  "is_string (JStr s) = True"
| "is_string v = False"

text \<open>
  \<^verbatim>\<open>v.k\<close> for a value that is neither undefined nor null (those raise a TypeError,
  which the callers below model where the source can reach it). The handlers read only
  the properties room, text, meta, isTyping and username, which no primitive, array or
  function has.
\<close>

fun get_prop :: "jsval \<Rightarrow> jsstring \<Rightarrow> jsval" where
  "get_prop (JObj a fs) k = (case map_of fs k of None \<Rightarrow> JUndefined | Some v \<Rightarrow> v)"
| "get_prop v k = JUndefined"

text \<open>
  The arguments of an event are bound to the parameters of its listener by position;
  a parameter past the last argument is undefined. A client that sends the values
  \<open>data\<close>, with a callback or without, makes the listener's arguments \<open>wire\<close>.
\<close>

definition arg :: "jsval list \<Rightarrow> nat \<Rightarrow> jsval" where
  "arg args n = (if n < length args then args ! n else JUndefined)"

definition wire :: "jsval list \<Rightarrow> bool \<Rightarrow> jsval list" where
  "wire data with_callback = data @ (if with_callback then [JAck] else [])"

text \<open>
  The errors: the one the middleware makes, with its message, and the TypeError that
  JavaScript raises when a property of undefined or null is read or a value that is
  not a function is called. The text of a TypeError is the engine's; no acknowledgment
  ever carries it, since the call that would pass it on raises again.
\<close>

datatype js_error = Error string | TypeError

fun message :: "js_error \<Rightarrow> string" where
  "message (Error s) = s"
| "message TypeError = ''TypeError''"

text \<open>
  \<^verbatim>\<open>String.prototype.trim\<close> removes leading and trailing WhiteSpace and LineTerminator
  code units (ECMAScript: TAB, VT, FF, SP, NBSP, ZWNBSP, the Unicode space separators,
  LF, CR, LS, PS).
\<close>

definition js_whitespace :: "jschar \<Rightarrow> bool" where
  "js_whitespace c =
     (c = 0x9 \<or> c = 0xA \<or> c = 0xB \<or> c = 0xC \<or> c = 0xD \<or> c = 0x20 \<or> c = 0xA0
      \<or> c = 0x1680 \<or> (0x2000 \<le> c \<and> c \<le> 0x200A) \<or> c = 0x2028 \<or> c = 0x2029
      \<or> c = 0x202F \<or> c = 0x205F \<or> c = 0x3000 \<or> c = 0xFEFF)"

definition trim :: "jsstring \<Rightarrow> jsstring" where
  "trim s = rev (dropWhile js_whitespace (rev (dropWhile js_whitespace s)))"

section \<open>Bounded history per room\<close>

text \<open>
  \<^verbatim>\<open>
  const ROOM_HISTORY_LIMIT = 100;
  const roomHistory = new Map(); // room -> [{id, author, text, ts}]

  function pushRoomMessage(room, msg) {
    if (!roomHistory.has(room)) roomHistory.set(room, []);
    const arr = roomHistory.get(room);
    arr.push(msg);
    if (arr.length > ROOM_HISTORY_LIMIT) arr.shift();
  }
  \<close>
  The global map is passed in and returned. \<open>room_history\<close> is the read
  \<^verbatim>\<open>roomHistory.get(room) || []\<close> of the join and history handlers.
\<close>

definition ROOM_HISTORY_LIMIT :: nat where
  "ROOM_HISTORY_LIMIT = 100"

definition pushRoomMessage :: "('k \<rightharpoonup> 'm list) \<Rightarrow> 'k \<Rightarrow> 'm \<Rightarrow> ('k \<rightharpoonup> 'm list)" where
  "pushRoomMessage h room msg =
     (let h1 = (if h room = None then h(room \<mapsto> []) else h);
          arr = (case h1 room of None \<Rightarrow> [] | Some a \<Rightarrow> a);
          arr1 = arr @ [msg];
          arr2 = (if length arr1 > ROOM_HISTORY_LIMIT then tl arr1 else arr1)
      in h1(room \<mapsto> arr2))"

definition room_history :: "('k \<rightharpoonup> 'm list) \<Rightarrow> 'k \<Rightarrow> 'm list" where
  "room_history h room = (case h room of None \<Rightarrow> [] | Some a \<Rightarrow> a)"

text \<open>A sequence of appends, each a room and a message, in order.\<close>

fun push_all :: "('k \<rightharpoonup> 'm list) \<Rightarrow> ('k \<times> 'm) list \<Rightarrow> ('k \<rightharpoonup> 'm list)" where
  "push_all h [] = h"
| "push_all h ((room, msg) # rest) = push_all (pushRoomMessage h room msg) rest"

section \<open>Sockets, rooms and broadcasts\<close>

text \<open>
  A message as the message handler builds it:
  \<^verbatim>\<open>{ id, room, text, author: user, meta: meta || null, ts }\<close>.
\<close>

record msg =
  msg_id :: jsstring
  msg_room :: jsval
  msg_text :: jsval
  msg_author :: jsstring
  msg_meta :: jsval
  msg_ts :: jsstring

text \<open>
  The events the server emits, with their payloads, and a delivery: the id of the socket
  that receives the event, and the event.
\<close>

datatype event =
    Connected jsstring jsstring
  | User_joined jsstring jsval
  | User_left jsstring jsval
  | Message msg
  | Typing jsstring jsval bool

type_synonym delivery = "jsstring \<times> event"

text \<open>The objects passed to the acknowledgment callback \<^verbatim>\<open>cb\<close>.\<close>

datatype ack =
    Ack_error string
  | Join_ok jsval nat "msg list"
  | Leave_ok jsval nat
  | Message_ok jsstring
  | History_ok jsval "msg list"

text \<open>
  A connected socket: \<^verbatim>\<open>socket.data.username\<close> and \<^verbatim>\<open>socket.rooms\<close>, a JavaScript
  Set, kept as the list of its elements in insertion order. The server state is the
  sockets of the namespace by id, in connection order, and the global
  \<^verbatim>\<open>roomHistory\<close>.
\<close>

record socket =
  data_username :: jsstring
  rooms :: "jsval list"

record server =
  sockets :: "(jsstring \<times> socket) list"
  roomHistory :: "jsval \<rightharpoonup> msg list"

definition init_server :: server where
  "init_server = \<lparr>sockets = [], roomHistory = Map.empty\<rparr>"

text \<open>
  Socket.IO is a library the server calls, not code of the repository. It is modelled by
  its documented behaviour on one process with the default in-memory adapter:
  \<^item> \<^verbatim>\<open>socket.join(room)\<close> adds the room to the socket's rooms, \<^verbatim>\<open>socket.leave(room)\<close>
    removes it; both do nothing more when the socket already is (is not) in the room;
  \<^item> \<^verbatim>\<open>io.in(room)\<close> addresses every connected socket that is in the room. It takes
    an array as a list of rooms and addresses the sockets that are in one of them,
    each once; with no room at all, the empty array, it addresses every socket of the
    namespace;
  \<^item> \<^verbatim>\<open>socket.to(room)\<close> addresses the same sockets but the sender;
  \<^item> \<^verbatim>\<open>io.in(room).allSockets()\<close> is the set of the ids of the sockets addressed;
  \<^item> a new socket is in the room named by its own id;
  \<^item> when a socket closes, the library first fires \<^verbatim>\<open>"disconnecting"\<close>, then takes the
    socket out of all its rooms and out of the namespace, and only then fires
    \<^verbatim>\<open>"disconnect"\<close>: in a \<^verbatim>\<open>"disconnect"\<close> listener \<^verbatim>\<open>socket.rooms\<close> is empty.

  A broadcast is one packet to each socket addressed; the deliveries are listed in the
  order in which the sockets connected.
\<close>

definition socket_rooms :: "server \<Rightarrow> jsstring \<Rightarrow> jsval list" where
  "socket_rooms st sid = (case map_of (sockets st) sid of None \<Rightarrow> [] | Some s \<Rightarrow> rooms s)"

text \<open>The sockets that are in one room: the members of the room.\<close>

definition members :: "server \<Rightarrow> jsval \<Rightarrow> jsstring list" where
  "members st room = map fst (filter (\<lambda>(i, s). room \<in> set (rooms s)) (sockets st))"

text \<open>
  Whether \<^verbatim>\<open>io.in(room)\<close> addresses a socket that is in the rooms \<open>joined\<close>, and the
  sockets it addresses.
\<close>

definition addresses :: "jsval \<Rightarrow> jsval list \<Rightarrow> bool" where
  "addresses room joined =
     (case room of
        JArr a rs \<Rightarrow> rs = [] \<or> list_ex (\<lambda>r. r \<in> set joined) rs
      | _ \<Rightarrow> room \<in> set joined)"

definition in_room :: "server \<Rightarrow> jsval \<Rightarrow> jsstring list" where
  "in_room st room = map fst (filter (\<lambda>(i, s). addresses room (rooms s)) (sockets st))"

definition to_room :: "server \<Rightarrow> jsstring \<Rightarrow> jsval \<Rightarrow> jsstring list" where
  "to_room st sid room = filter (\<lambda>i. i \<noteq> sid) (in_room st room)"

definition allSockets :: "server \<Rightarrow> jsval \<Rightarrow> jsstring list" where
  "allSockets st room = remdups (in_room st room)"

definition emit :: "jsstring list \<Rightarrow> event \<Rightarrow> delivery list" where
  "emit targets ev = map (\<lambda>i. (i, ev)) targets"

definition set_add :: "'a \<Rightarrow> 'a list \<Rightarrow> 'a list" where
  "set_add x xs = (if x \<in> set xs then xs else xs @ [x])"

definition update_socket :: "jsstring \<Rightarrow> (socket \<Rightarrow> socket) \<Rightarrow> server \<Rightarrow> server" where
  "update_socket sid f st =
     st\<lparr>sockets := map (\<lambda>(i, s). if i = sid then (i, f s) else (i, s)) (sockets st)\<rparr>"

definition socket_join :: "server \<Rightarrow> jsstring \<Rightarrow> jsval \<Rightarrow> server" where
  "socket_join st sid room = update_socket sid (\<lambda>s. s\<lparr>rooms := set_add room (rooms s)\<rparr>) st"

definition socket_leave :: "server \<Rightarrow> jsstring \<Rightarrow> jsval \<Rightarrow> server" where
  "socket_leave st sid room = update_socket sid (\<lambda>s. s\<lparr>rooms := removeAll room (rooms s)\<rparr>) st"

text \<open>
  \<^verbatim>\<open>cb && cb(a)\<close>: nothing happens when \<^verbatim>\<open>cb\<close> is falsy, as it is when the event came
  with one argument less than the listener has parameters; the acknowledgment \<open>a\<close>
  reaches the client when \<^verbatim>\<open>cb\<close> is the acknowledgment function; and calling any other
  truthy value raises a TypeError.
\<close>

definition cb_call :: "jsval \<Rightarrow> ack \<Rightarrow> js_error + ack option" where
  "cb_call cb a =
     (if \<not> truthy cb then Inr None
      else if cb = JAck then Inr (Some a)
      else Inl TypeError)"

text \<open>
  The last statement of the \<^verbatim>\<open>try\<close> block of the join, leave and message listeners
  with their \<^verbatim>\<open>catch\<close> block:
  \<^verbatim>\<open>
  try { ...; cb && cb(a); }
  catch (err) { cb && cb({ ok: false, error: err.message }); }
  \<close>
  The result is the acknowledgment sent, if any, and the error that escapes the
  listener, if any. No other statement of the three \<^verbatim>\<open>try\<close> blocks raises.
\<close>

definition try_reply :: "jsval \<Rightarrow> ack \<Rightarrow> ack option \<times> js_error option" where
  "try_reply cb a =
     (case cb_call cb a of
        Inr sent \<Rightarrow> (sent, None)
      | Inl err \<Rightarrow>
          (case cb_call cb (Ack_error (message err)) of
             Inr sent \<Rightarrow> (sent, None)
           | Inl err2 \<Rightarrow> (None, Some err2)))"

section \<open>Admission\<close>

text \<open>
  \<^verbatim>\<open>
  io.use((socket, next) => {
    const username = socket.handshake.auth && socket.handshake.auth.username;
    if (!username || typeof username !== "string" || username.trim() === "") {
      return next(new Error("invalid username"));
    }
    socket.data.username = username.trim();
    next();
  });
  \<close>
  \<open>claimed_username\<close> is the first line; \<open>handshake\<close> returns the error passed to
  \<^verbatim>\<open>next\<close> or the name stored in \<^verbatim>\<open>socket.data.username\<close>.
\<close>

definition claimed_username :: "jsval \<Rightarrow> jsval" where
  "claimed_username auth = (if truthy auth then get_prop auth (U ''username'') else auth)"

definition handshake :: "jsval \<Rightarrow> js_error + jsstring" where
  "handshake auth =
     (case claimed_username auth of
        JStr s \<Rightarrow>
          if s = [] \<or> trim s = [] then Inl (Error ''invalid username'') else Inr (trim s)
      | v \<Rightarrow> Inl (Error ''invalid username''))"

text \<open>
  The connection handler's first statements:
  \<^verbatim>\<open>socket.emit("connected", { id: socket.id, username: user })\<close>.
\<close>

definition on_connection :: "jsstring \<Rightarrow> jsstring \<Rightarrow> delivery list" where
  "on_connection sid user = [(sid, Connected sid user)]"

text \<open>
  A connection attempt with the id the library assigns: refused with the middleware's
  error and the state as it was, or a new socket in its own room and the handler's
  deliveries.
\<close>

definition connect :: "server \<Rightarrow> jsstring \<Rightarrow> jsval \<Rightarrow> server \<times> (js_error + delivery list)" where
  "connect st sid auth =
     (case handshake auth of
        Inl e \<Rightarrow> (st, Inl e)
      | Inr user \<Rightarrow>
          (st\<lparr>sockets := sockets st @ [(sid, \<lparr>data_username = user, rooms = [JStr sid]\<rparr>)]\<rparr>,
           Inr (on_connection sid user)))"

section \<open>Request handlers\<close>

text \<open>
  Each handler runs for the socket \<open>sid\<close> whose name \<open>user\<close> the connection handler
  read once from \<^verbatim>\<open>socket.data.username\<close>. Its result is the new state, the
  acknowledgment sent, the deliveries and the error that escapes.
  \<^verbatim>\<open>
  socket.on("join", async (room, cb) => {
    try {
      if (!room || typeof room !== "string") return cb && cb({ ok: false, error: "room required" });
      socket.join(room);
      socket.to(room).emit("user_joined", { user, room });
      const socketsInRoom = await io.in(room).allSockets();
      const memberCount = socketsInRoom.size;
      const history = roomHistory.get(room) || [];
      cb && cb({ ok: true, room, memberCount, history });
    } catch (err) {
      cb && cb({ ok: false, error: err.message });
    }
  });
  \<close>
\<close>

type_synonym outcome = "server \<times> ack option \<times> delivery list \<times> js_error option"

definition on_join :: "server \<Rightarrow> jsstring \<Rightarrow> jsstring \<Rightarrow> jsval \<Rightarrow> jsval \<Rightarrow> outcome" where
  "on_join st sid user room cb =
     (if \<not> truthy room \<or> \<not> is_string room
      then
        let (sent, err) = try_reply cb (Ack_error ''room required'')
        in (st, sent, [], err)
      else
        let st1 = socket_join st sid room;
            out = emit (to_room st1 sid room) (User_joined user room);
            memberCount = length (allSockets st1 room);
            history = room_history (roomHistory st1) room;
            (sent, err) = try_reply cb (Join_ok room memberCount history)
        in (st1, sent, out, err))"

text \<open>
  \<^verbatim>\<open>
  socket.on("leave", async (room, cb) => {
    try {
      await socket.leave(room);
      socket.to(room).emit("user_left", { user, room });
      const socketsInRoom = await io.in(room).allSockets();
      cb && cb({ ok: true, room, memberCount: socketsInRoom.size });
    } catch (err) {
      cb && cb({ ok: false, error: err.message });
    }
  });
  \<close>
\<close>

definition on_leave :: "server \<Rightarrow> jsstring \<Rightarrow> jsstring \<Rightarrow> jsval \<Rightarrow> jsval \<Rightarrow> outcome" where
  "on_leave st sid user room cb =
     (let st1 = socket_leave st sid room;
          out = emit (to_room st1 sid room) (User_left user room);
          memberCount = length (allSockets st1 room);
          (sent, err) = try_reply cb (Leave_ok room memberCount)
      in (st1, sent, out, err))"

text \<open>
  \<^verbatim>\<open>
  socket.on("message", async (payload, cb) => {
    try {
      const { room, text, meta } = payload || {};
      if (!room || !text) return cb && cb({ ok: false, error: "room & text required" });
      const msg = {
        id: Date.now().toString(36) + "-" + Math.random().toString(36).slice(2, 8),
        room, text, author: user, meta: meta || null,
        ts: new Date().toISOString(),
      };
      pushRoomMessage(room, msg);
      io.in(room).emit("message", msg);
      cb && cb({ ok: true, id: msg.id });
    } catch (err) {
      cb && cb({ ok: false, error: err.message });
    }
  });
  \<close>
  The clock and the random number generator are outside the program: the id and the
  timestamp they yield are the arguments \<open>new_id\<close> and \<open>now\<close>.
\<close>

definition on_message ::
  "server \<Rightarrow> jsstring \<Rightarrow> jsval \<Rightarrow> jsval \<Rightarrow> jsstring \<Rightarrow> jsstring \<Rightarrow> outcome" where
  "on_message st user payload cb new_id now =
     (let p = (if truthy payload then payload else JObj 0 []);
          room = get_prop p (U ''room'');
          txt = get_prop p (U ''text'');
          meta = get_prop p (U ''meta'')
      in if \<not> truthy room \<or> \<not> truthy txt
         then
           let (sent, err) = try_reply cb (Ack_error ''room & text required'')
           in (st, sent, [], err)
         else
           let m = \<lparr>msg_id = new_id, msg_room = room, msg_text = txt, msg_author = user,
                    msg_meta = (if truthy meta then meta else JNull), msg_ts = now\<rparr>;
               st1 = st\<lparr>roomHistory := pushRoomMessage (roomHistory st) room m\<rparr>;
               (sent, err) = try_reply cb (Message_ok (msg_id m))
           in (st1, sent, emit (in_room st1 room) (Message m), err))"

text \<open>
  \<^verbatim>\<open>
  socket.on("typing", ({ room, isTyping }) => {
    if (!room) return;
    socket.to(room).emit("typing", { user, room, isTyping: !!isTyping });
  });
  \<close>
  The parameter is destructured with no default and outside any \<^verbatim>\<open>try\<close>: for an
  undefined or null payload JavaScript raises a TypeError before the body runs. The
  handler changes no state and has no callback, so it returns the error or the
  deliveries.
\<close>

definition on_typing :: "server \<Rightarrow> jsstring \<Rightarrow> jsstring \<Rightarrow> jsval \<Rightarrow> js_error + delivery list" where
  "on_typing st sid user payload =
     (if payload = JUndefined \<or> payload = JNull then Inl TypeError
      else
        let room = get_prop payload (U ''room'');
            isTyping = get_prop payload (U ''isTyping'')
        in if \<not> truthy room then Inr []
           else Inr (emit (to_room st sid room) (Typing user room (truthy isTyping))))"

text \<open>
  \<^verbatim>\<open>
  socket.on("history", (room, cb) => {
    const history = roomHistory.get(room) || [];
    cb && cb({ ok: true, room, history });
  });
  \<close>
  There is no \<^verbatim>\<open>try\<close>: the result is the acknowledgment sent, if any, or the error of
  the call.
\<close>

definition on_history :: "server \<Rightarrow> jsval \<Rightarrow> jsval \<Rightarrow> js_error + ack option" where
  "on_history st room cb = cb_call cb (History_ok room (room_history (roomHistory st) room))"

text \<open>
  \<^verbatim>\<open>
  socket.on("disconnect", (reason) => {
    for (const room of socket.rooms) {
      if (room === socket.id) continue;
      socket.to(room).emit("user_left", { user, room });
    }
  });
  \<close>
  \<open>notify_left\<close> is the loop over a given list of rooms; the listener runs it over
  \<^verbatim>\<open>socket.rooms\<close> as the state has it when the listener is called.
\<close>

definition notify_left :: "server \<Rightarrow> jsstring \<Rightarrow> jsstring \<Rightarrow> jsval list \<Rightarrow> delivery list" where
  "notify_left st sid user rs =
     concat (map (\<lambda>room. if room = JStr sid then []
                          else emit (to_room st sid room) (User_left user room)) rs)"

definition on_disconnect :: "server \<Rightarrow> jsstring \<Rightarrow> jsstring \<Rightarrow> delivery list" where
  "on_disconnect st sid user = notify_left st sid user (socket_rooms st sid)"

text \<open>
  The library's closing of a socket: it leaves all its rooms and the namespace, then the
  \<^verbatim>\<open>"disconnect"\<close> listener runs.
\<close>

definition close_socket :: "server \<Rightarrow> jsstring \<Rightarrow> jsstring \<Rightarrow> server \<times> delivery list" where
  "close_socket st sid user =
     (let st1 = st\<lparr>sockets := filter (\<lambda>(i, s). i \<noteq> sid) (sockets st)\<rparr>
      in (st1, on_disconnect st1 sid user))"

section \<open>The server as a transition system\<close>

text \<open>
  What reaches the server: a connection attempt with the id the library assigns to the
  socket, the five client events, each with its list of arguments, and the closing of
  a socket. The library assigns fresh ids and calls the listeners of a socket only
  while it is connected, so a connection attempt under an id in use and an event of a
  socket that is not connected change nothing. The arguments are bound to the
  parameters of the listener by position.

  An error that escapes a listener is caught by nobody: an uncaught exception of the
  typing or history listener, an unhandled rejection of the three asynchronous ones,
  which Node.js treats like an uncaught exception by default. It ends the process,
  and the state with it: \<open>step\<close> then returns the error, and
  \<open>run\<close>, which serves a sequence of inputs one after the other, stops with it.
\<close>

datatype request =
    Connect jsval
  | Join "jsval list"
  | Leave "jsval list"
  | Send "jsval list" jsstring jsstring
  | Typing_request "jsval list"
  | History_request "jsval list"
  | Disconnect

definition settle :: "outcome \<Rightarrow> js_error + server" where
  "settle res = (case res of (st, sent, out, None) \<Rightarrow> Inr st | (st, sent, out, Some err) \<Rightarrow> Inl err)"

fun step :: "server \<Rightarrow> jsstring \<times> request \<Rightarrow> js_error + server" where
  "step st (sid, req) =
     (case map_of (sockets st) sid of
        None \<Rightarrow> (case req of Connect auth \<Rightarrow> Inr (fst (connect st sid auth)) | _ \<Rightarrow> Inr st)
      | Some s \<Rightarrow>
          (case req of
             Connect auth \<Rightarrow> Inr st
           | Join args \<Rightarrow> settle (on_join st sid (data_username s) (arg args 0) (arg args 1))
           | Leave args \<Rightarrow> settle (on_leave st sid (data_username s) (arg args 0) (arg args 1))
           | Send args new_id now \<Rightarrow>
               settle (on_message st (data_username s) (arg args 0) (arg args 1) new_id now)
           | Typing_request args \<Rightarrow>
               (case on_typing st sid (data_username s) (arg args 0) of
                  Inl err \<Rightarrow> Inl err
                | Inr out \<Rightarrow> Inr st)
           | History_request args \<Rightarrow>
               (case on_history st (arg args 0) (arg args 1) of
                  Inl err \<Rightarrow> Inl err
                | Inr sent \<Rightarrow> Inr st)
           | Disconnect \<Rightarrow> Inr (fst (close_socket st sid (data_username s)))))"

fun run :: "server \<Rightarrow> (jsstring \<times> request) list \<Rightarrow> js_error + server" where
  "run st [] = Inr st"
| "run st (input # inputs) =
     (case step st input of Inl err \<Rightarrow> Inl err | Inr st1 \<Rightarrow> run st1 inputs)"

text \<open>
  Well-formed states: the ids of the connected sockets are pairwise different, and the
  rooms of a socket are strings, each listed once.
\<close>

definition wf_socket :: "socket \<Rightarrow> bool" where
  "wf_socket s = (distinct (rooms s) \<and> list_all is_string (rooms s))"

definition wf_server :: "server \<Rightarrow> bool" where
  "wf_server st = (distinct (map fst (sockets st)) \<and> list_all (\<lambda>(i, s). wf_socket s) (sockets st))"

section \<open>Sample states\<close>

text \<open>
  Two connected sockets, \<open>sA\<close> of alice and \<open>sB\<close> of bob. In \<open>bob_in_r1\<close> only bob has
  joined the room \<open>r1\<close>; in \<open>both_in_r1\<close> both have.
\<close>

definition bob_in_r1 :: server where
  "bob_in_r1 =
     \<lparr>sockets =
        [(U ''sA'', \<lparr>data_username = U ''alice'', rooms = [JStr (U ''sA'')]\<rparr>),
         (U ''sB'', \<lparr>data_username = U ''bob'', rooms = [JStr (U ''sB''), JStr (U ''r1'')]\<rparr>)],
      roomHistory = Map.empty\<rparr>"

definition both_in_r1 :: server where
  "both_in_r1 =
     \<lparr>sockets =
        [(U ''sA'', \<lparr>data_username = U ''alice'', rooms = [JStr (U ''sA''), JStr (U ''r1'')]\<rparr>),
         (U ''sB'', \<lparr>data_username = U ''bob'', rooms = [JStr (U ''sB''), JStr (U ''r1'')]\<rparr>)],
      roomHistory = Map.empty\<rparr>"

text \<open>
  Message requests: for the room \<open>r1\<close> with the text "hi" and with the number 42 as
  text, and with the text "hi" for the array of the one room \<open>r1\<close>; and the message
  built from the first for alice with the id \<open>m1\<close> at the time \<open>t1\<close>.
\<close>

definition say_hi :: jsval where
  "say_hi = JObj 1 [(U ''room'', JStr (U ''r1'')), (U ''text'', JStr (U ''hi''))]"


definition say_hi_to_list :: jsval where
  "say_hi_to_list = JObj 1 [(U ''room'', JArr 2 [JStr (U ''r1'')]), (U ''text'', JStr (U ''hi''))]"

definition hi_msg :: msg where
  "hi_msg = \<lparr>msg_id = U ''m1'', msg_room = JStr (U ''r1''), msg_text = JStr (U ''hi''),
             msg_author = U ''alice'', msg_meta = JNull, msg_ts = U ''t1''\<rparr>"

text \<open>A run of 101 messages for \<open>r1\<close>, numbered 0 to 100 in their timestamps.\<close>

definition numbered :: "nat \<Rightarrow> msg" where
  "numbered n = hi_msg\<lparr>msg_ts := [of_nat n]\<rparr>"

definition run_of_101 :: "msg list" where
  "run_of_101 = map numbered [0..<101]"

section \<open>Properties\<close>

subsection \<open>Helper lemmas: the history store\<close>

lemma room_history_push_same:
  "room_history (pushRoomMessage h room msg) room =
     (if length (room_history h room) < ROOM_HISTORY_LIMIT
      then room_history h room @ [msg]
      else tl (room_history h room @ [msg]))"
  by (auto simp: pushRoomMessage_def room_history_def Let_def split: option.splits)

lemma room_history_push_other:
  "r \<noteq> room \<Longrightarrow> room_history (pushRoomMessage h room msg) r = room_history h r"
  by (auto simp: pushRoomMessage_def room_history_def Let_def split: option.splits)

lemma room_history_push_bound:
  assumes "length (room_history h r) \<le> ROOM_HISTORY_LIMIT"
  shows "length (room_history (pushRoomMessage h room msg) r) \<le> ROOM_HISTORY_LIMIT"
proof (cases "r = room")
  case True
  with assms show ?thesis
    by (simp add: room_history_push_same)
next
  case False
  with assms show ?thesis
    by (simp add: room_history_push_other)
qed

lemma push_all_bound:
  "length (room_history h r) \<le> ROOM_HISTORY_LIMIT \<Longrightarrow>
   length (room_history (push_all h ops) r) \<le> ROOM_HISTORY_LIMIT"
proof (induction ops arbitrary: h)
  case Nil
  then show ?case by simp
next
  case (Cons op ops)
  obtain room msg where op: "op = (room, msg)"
    by (cases op)
  from Cons.prems have "length (room_history (pushRoomMessage h room msg) r) \<le> ROOM_HISTORY_LIMIT"
    by (rule room_history_push_bound)
  then show ?case
    unfolding op by (simp add: Cons.IH)
qed

text \<open>
  C1. For every room and every sequence of appends starting from the empty store, the
  history kept for the room holds at most \<open>ROOM_HISTORY_LIMIT = 100\<close> messages. A
  prefix of a sequence of appends is one too, so the bound holds after each call of
  \<open>pushRoomMessage\<close>.
\<close>

theorem history_never_exceeds_limit:
  "length (room_history (push_all Map.empty ops) r) \<le> ROOM_HISTORY_LIMIT
   \<and> ROOM_HISTORY_LIMIT = 100"
proof
  show "length (room_history (push_all Map.empty ops) r) \<le> ROOM_HISTORY_LIMIT"
    using push_all_bound [of Map.empty r ops] by (simp add: room_history_def)
  show "ROOM_HISTORY_LIMIT = 100"
    by (simp add: ROOM_HISTORY_LIMIT_def)
qed

subsection \<open>Admission\<close>

lemma trim_Nil: "trim [] = []"
  by (simp add: trim_def)

lemma trim_suffix:
  "dropWhile js_whitespace s =
     trim s @ rev (takeWhile js_whitespace (rev (dropWhile js_whitespace s)))"
proof -
  let ?r = "rev (dropWhile js_whitespace s)"
  have "trim s @ rev (takeWhile js_whitespace ?r) =
      rev (takeWhile js_whitespace ?r @ dropWhile js_whitespace ?r)"
    by (simp only: trim_def rev_append)
  also have "\<dots> = rev ?r"
    by (simp only: takeWhile_dropWhile_id)
  finally show ?thesis
    by simp
qed

lemma trim_decompose:
  "s = takeWhile js_whitespace s @ trim s
         @ rev (takeWhile js_whitespace (rev (dropWhile js_whitespace s)))"
proof -
  have "s = takeWhile js_whitespace s @ dropWhile js_whitespace s"
    by simp
  also have "dropWhile js_whitespace s =
      trim s @ rev (takeWhile js_whitespace (rev (dropWhile js_whitespace s)))"
    by (rule trim_suffix)
  finally show ?thesis .
qed

lemma trim_last: "trim s \<noteq> [] \<Longrightarrow> \<not> js_whitespace (last (trim s))"
  unfolding trim_def by (simp add: last_rev hd_dropWhile)

lemma trim_hd:
  assumes "trim s \<noteq> []"
  shows "\<not> js_whitespace (hd (trim s))"
proof -
  let ?t = "dropWhile js_whitespace s"
  have t: "?t = trim s @ rev (takeWhile js_whitespace (rev ?t))"
    by (rule trim_suffix)
  with assms have "?t \<noteq> []"
    by (metis append_is_Nil_conv)
  then have "\<not> js_whitespace (hd ?t)"
    by (rule hd_dropWhile)
  moreover from t assms have "hd ?t = hd (trim s)"
    by (metis hd_append2)
  ultimately show ?thesis
    by simp
qed

lemma trim_characterisation:
  "\<exists>pre post. s = pre @ trim s @ post \<and> list_all js_whitespace pre \<and> list_all js_whitespace post"
proof (intro exI conjI)
  show "s = takeWhile js_whitespace s @ trim s @ rev (takeWhile js_whitespace (rev (dropWhile js_whitespace s)))"
    by (rule trim_decompose)
  show "list_all js_whitespace (takeWhile js_whitespace s)"
    by (auto simp: list_all_iff dest: set_takeWhileD)
  show "list_all js_whitespace (rev (takeWhile js_whitespace (rev (dropWhile js_whitespace s))))"
    by (auto simp: list_all_iff dest: set_takeWhileD)
qed

text \<open>
  C4. A connection attempt whose claimed username is missing, not a string, or empty
  after trimming is refused with the error "invalid username" and the state is as it
  was: no socket is created. Otherwise the new socket stores the trimmed name, is in
  its own room only, and the client is sent "connected" with its id and that name.
  By \<open>trim_characterisation\<close>, \<open>trim_hd\<close> and \<open>trim_last\<close> the stored name is the
  input without the white space at its two ends.
\<close>

theorem admission:
  "((\<forall>s. claimed_username auth \<noteq> JStr s) \<or> (\<exists>s. claimed_username auth = JStr s \<and> trim s = [])
      \<longrightarrow> connect st sid auth = (st, Inl (Error ''invalid username'')))
   \<and> (\<forall>s. claimed_username auth = JStr s \<and> trim s \<noteq> [] \<longrightarrow>
         connect st sid auth =
           (st\<lparr>sockets := sockets st @ [(sid, \<lparr>data_username = trim s, rooms = [JStr sid]\<rparr>)]\<rparr>,
            Inr [(sid, Connected sid (trim s))]))"
proof (intro conjI impI allI)
  assume "(\<forall>s. claimed_username auth \<noteq> JStr s) \<or> (\<exists>s. claimed_username auth = JStr s \<and> trim s = [])"
  then have "handshake auth = Inl (Error ''invalid username'')"
    by (auto simp: handshake_def split: jsval.splits)
  then show "connect st sid auth = (st, Inl (Error ''invalid username''))"
    by (simp add: connect_def)
next
  fix s
  assume "claimed_username auth = JStr s \<and> trim s \<noteq> []"
  then have "handshake auth = Inr (trim s)"
    by (auto simp: handshake_def trim_Nil)
  then show "connect st sid auth =
      (st\<lparr>sockets := sockets st @ [(sid, \<lparr>data_username = trim s, rooms = [JStr sid]\<rparr>)]\<rparr>,
       Inr [(sid, Connected sid (trim s))])"
    by (simp add: connect_def on_connection_def)
qed

theorem admission_witness:
  "connect init_server (U ''sA'') (JObj 1 [(U ''username'', JStr (U ''   ''))])
     = (init_server, Inl (Error ''invalid username''))
   \<and> connect init_server (U ''sA'') (JObj 1 [])
     = (init_server, Inl (Error ''invalid username''))
   \<and> connect init_server (U ''sA'') (JObj 1 [(U ''username'', JNum (Finite 7))])
     = (init_server, Inl (Error ''invalid username''))
   \<and> connect init_server (U ''sA'') (JObj 1 [(U ''username'', JStr (U '' bob  ''))])
     = (\<lparr>sockets = [(U ''sA'', \<lparr>data_username = U ''bob'', rooms = [JStr (U ''sA'')]\<rparr>)],
         roomHistory = Map.empty\<rparr>,
        Inr [(U ''sA'', Connected (U ''sA'') (U ''bob''))])"
  using admission [of "JObj 1 [(U ''username'', JStr (U ''   ''))]" init_server "U ''sA''"]
    admission [of "JObj 1 []" init_server "U ''sA''"]
    admission [of "JObj 1 [(U ''username'', JNum (Finite 7))]" init_server "U ''sA''"]
    admission [of "JObj 1 [(U ''username'', JStr (U '' bob  ''))]" init_server "U ''sA''"]
  by (simp add: claimed_username_def U_def trim_def js_whitespace_def init_server_def)

subsection \<open>Rooms and broadcasts\<close>

lemma sample_states_reachable:
  "bob_in_r1 =
     fst (on_join
       (fst (connect (fst (connect init_server (U ''sA'') (JObj 1 [(U ''username'', JStr (U ''alice''))])))
          (U ''sB'') (JObj 2 [(U ''username'', JStr (U ''bob''))])))
       (U ''sB'') (U ''bob'') (JStr (U ''r1'')) JAck)"
  "both_in_r1 = fst (on_join bob_in_r1 (U ''sA'') (U ''alice'') (JStr (U ''r1'')) JAck)"
  by (simp_all add: bob_in_r1_def both_in_r1_def on_join_def connect_def handshake_def
      claimed_username_def trim_def js_whitespace_def init_server_def socket_join_def
      update_socket_def set_add_def U_def Let_def split: prod.splits)

lemma arg_wire:
  "arg (wire [] True) 0 = JAck" "arg (wire [] True) (Suc 0) = JUndefined"
  "arg (wire [v] True) 0 = v" "arg (wire [v] True) (Suc 0) = JAck"
  "arg (wire [] False) 0 = JUndefined" "arg (wire [] False) (Suc 0) = JUndefined"
  "arg (wire [v] False) 0 = v" "arg (wire [v] False) (Suc 0) = JUndefined"
  by (simp_all add: arg_def wire_def)

lemma try_reply_cases:
  "try_reply cb a =
     (if cb = JAck then (Some a, None)
      else if truthy cb then (None, Some TypeError)
      else (None, None))"
  by (auto simp: try_reply_def cb_call_def)

lemma addresses_single:
  "(\<And>a rs. room \<noteq> JArr a rs) \<Longrightarrow> addresses room joined \<longleftrightarrow> room \<in> set joined"
  by (cases room) (auto simp: addresses_def)

lemma addresses_list:
  "addresses (JArr a rs) joined \<longleftrightarrow> rs = [] \<or> (\<exists>r \<in> set rs. r \<in> set joined)"
  by (simp add: addresses_def list_ex_iff)

lemma in_room_single:
  "(\<And>a rs. room \<noteq> JArr a rs) \<Longrightarrow> in_room st room = members st room"
  by (simp add: in_room_def members_def addresses_single)

lemma members_iff:
  "i \<in> set (members st room) \<longleftrightarrow> (\<exists>s. (i, s) \<in> set (sockets st) \<and> room \<in> set (rooms s))"
  by (force simp: members_def)

lemma in_room_iff:
  "i \<in> set (in_room st room) \<longleftrightarrow> (\<exists>s. (i, s) \<in> set (sockets st) \<and> addresses room (rooms s))"
  by (force simp: in_room_def)

lemma to_room_iff:
  "i \<in> set (to_room st sid room) \<longleftrightarrow> i \<in> set (in_room st room) \<and> i \<noteq> sid"
  by (auto simp: to_room_def)

lemma emit_iff: "(i, e) \<in> set (emit targets ev) \<longleftrightarrow> i \<in> set targets \<and> e = ev"
  by (auto simp: emit_def)

lemma in_room_history_update [simp]: "in_room (st\<lparr>roomHistory := h\<rparr>) room = in_room st room"
  by (simp add: in_room_def)

lemma roomHistory_update_socket [simp]: "roomHistory (update_socket sid f st) = roomHistory st"
  by (simp add: update_socket_def)

lemma filter_updated:
  "map fst (filter (\<lambda>(i, s). P s) (map (\<lambda>(i, s). if i = sid then (i, f s) else (i, s)) xs))
     = map fst (filter (\<lambda>(i, s). if i = sid then P (f s) else P s) xs)"
  by (induction xs) (auto split: if_splits)

lemma map_of_updated:
  "map_of (map (\<lambda>(i, s). if i = sid then (i, f s) else (i, s)) xs) k
     = (if k = sid then map_option f (map_of xs k) else map_of xs k)"
  by (induction xs) auto

lemma in_room_update_socket:
  "in_room (update_socket sid f st) r
     = map fst (filter (\<lambda>(i, s). if i = sid then addresses r (rooms (f s))
                                  else addresses r (rooms s))
         (sockets st))"
  unfolding in_room_def update_socket_def by (simp add: filter_updated)

lemma in_room_join:
  assumes "\<And>a rs. room \<noteq> JArr a rs" and "sid \<in> fst ` set (sockets st)"
  shows "sid \<in> set (in_room (socket_join st sid room) room)"
proof -
  from assms(2) obtain s where "(sid, s) \<in> set (sockets st)"
    by auto
  moreover have "addresses room (rooms (s\<lparr>rooms := set_add room (rooms s)\<rparr>))"
    using assms(1) by (simp add: addresses_single set_add_def)
  ultimately show ?thesis
    unfolding socket_join_def in_room_update_socket by force
qed

lemma in_room_leave:
  assumes "\<And>a rs. room \<noteq> JArr a rs"
  shows "sid \<notin> set (in_room (socket_leave st sid room) room)"
  unfolding socket_leave_def in_room_update_socket
  using assms by (auto simp: addresses_single)

lemma socket_rooms_join:
  assumes "sid \<in> fst ` set (sockets st)"
  shows "room \<in> set (socket_rooms (socket_join st sid room) sid)"
proof -
  from assms obtain s where "map_of (sockets st) sid = Some s"
    by (metis domIff dom_map_of_conv_image_fst not_Some_eq)
  then have "map_of (sockets (socket_join st sid room)) sid
      = Some (s\<lparr>rooms := set_add room (rooms s)\<rparr>)"
    by (simp add: socket_join_def update_socket_def map_of_updated)
  then show ?thesis
    by (simp add: socket_rooms_def set_add_def)
qed

lemma socket_rooms_leave: "room \<notin> set (socket_rooms (socket_leave st sid room) sid)"
  by (auto simp: socket_rooms_def socket_leave_def update_socket_def map_of_updated
      split: option.splits)

subsection \<open>Join\<close>

lemma on_join_refused:
  assumes "\<not> truthy room \<or> \<not> is_string room"
  shows "on_join st sid user room cb
           = (st, (if cb = JAck then Some (Ack_error ''room required'') else None), [],
              (if truthy cb \<and> cb \<noteq> JAck then Some TypeError else None))"
  using assms by (auto simp: on_join_def try_reply_cases)

lemma on_join_served:
  assumes "truthy room" and "is_string room"
  shows "on_join st sid user room cb
           = (socket_join st sid room,
              (if cb = JAck
               then Some (Join_ok room (length (allSockets (socket_join st sid room) room))
                            (room_history (roomHistory st) room))
               else None),
              emit (to_room (socket_join st sid room) sid room) (User_joined user room),
              (if truthy cb \<and> cb \<noteq> JAck then Some TypeError else None))"
  using assms by (auto simp: on_join_def try_reply_cases Let_def socket_join_def)

text \<open>
  C8, as the code has it. A join request whose room argument is empty or not a string
  (any falsy value included) changes nothing: the state, and with it the rooms of every
  socket, is as before, and no event is emitted. The answer
  \<^verbatim>\<open>{ok: false, error: "room required"}\<close> is sent when the second argument is the
  acknowledgment function. When there is no second argument no acknowledgment is sent:
  so it is for a request that carries its callback where the room belongs, since the
  arguments are bound by position.
\<close>

theorem join_rejects_bad_room:
  assumes "room = JStr [] \<or> \<not> is_string room"
  shows "fst (on_join st sid user room cb) = st
    \<and> fst (snd (snd (on_join st sid user room cb))) = []
    \<and> (cb = JAck \<longrightarrow>
         on_join st sid user room cb = (st, Some (Ack_error ''room required''), [], None))
    \<and> (\<not> truthy cb \<longrightarrow> on_join st sid user room cb = (st, None, [], None))"
proof -
  from assms have "\<not> truthy room \<or> \<not> is_string room"
    by auto
  then show ?thesis
    by (auto simp: on_join_refused)
qed

theorem join_rejects_bad_room_witness:
  "on_join bob_in_r1 (U ''sA'') (U ''alice'') (JStr []) JAck
     = (bob_in_r1, Some (Ack_error ''room required''), [], None)
   \<and> on_join bob_in_r1 (U ''sA'') (U ''alice'') (JNum (Finite 5)) JAck
     = (bob_in_r1, Some (Ack_error ''room required''), [], None)
   \<and> on_join bob_in_r1 (U ''sA'') (U ''alice'') (JArr 1 [JStr (U ''r1'')]) JAck
     = (bob_in_r1, Some (Ack_error ''room required''), [], None)
   \<and> on_join bob_in_r1 (U ''sA'') (U ''alice'') (JNum (Finite 5)) JUndefined
     = (bob_in_r1, None, [], None)
   \<and> on_join bob_in_r1 (U ''sA'') (U ''alice'') JAck JUndefined
     = (bob_in_r1, None, [], None)"
  using join_rejects_bad_room [of "JStr []" bob_in_r1 "U ''sA''" "U ''alice''" JAck]
    join_rejects_bad_room [of "JNum (Finite 5)" bob_in_r1 "U ''sA''" "U ''alice''" JAck]
    join_rejects_bad_room [of "JArr 1 [JStr (U ''r1'')]" bob_in_r1 "U ''sA''" "U ''alice''" JAck]
    join_rejects_bad_room [of "JNum (Finite 5)" bob_in_r1 "U ''sA''" "U ''alice''" JUndefined]
    join_rejects_bad_room [of JAck bob_in_r1 "U ''sA''" "U ''alice''" JUndefined]
  by simp

text \<open>
  The claim as stated fails: alice sends a join request with a callback and no room.
  The callback is the first argument and so the room, which is not a string; the
  second parameter is undefined, and no acknowledgment is sent.
\<close>

theorem join_rejects_bad_room_counterexample:
  "\<not> is_string (arg (wire [] True) 0)
   \<and> on_join bob_in_r1 (U ''sA'') (U ''alice'') (arg (wire [] True) 0) (arg (wire [] True) 1)
       = (bob_in_r1, None, [], None)"
  by (simp add: arg_def wire_def on_join_def try_reply_cases)

text \<open>
  A second argument that is neither falsy nor the acknowledgment function is called in
  the \<^verbatim>\<open>try\<close> block and again in the \<^verbatim>\<open>catch\<close> block, and the TypeError of the second
  call escapes the listener. The state is as before here too.
\<close>

lemma join_bad_room_not_callable:
  assumes "\<not> truthy room \<or> \<not> is_string room" and "truthy cb" and "cb \<noteq> JAck"
  shows "on_join st sid user room cb = (st, None, [], Some TypeError)"
  using assms by (simp add: on_join_refused)

text \<open>
  C7. After a join request of a connected socket with a non-empty string as room has
  been served, the socket is in the room, and the member count of the acknowledgment is
  the number of sockets in the room in the state that already holds the joiner: it
  counts the joiner and is at least 1.
\<close>

theorem join_counts_joiner:
  assumes "sid \<in> fst ` set (sockets st)"
    and "room = JStr r" and "r \<noteq> []"
    and "on_join st sid user room cb = (st', a, out, err)"
  shows "room \<in> set (socket_rooms st' sid)
    \<and> sid \<in> set (in_room st' room)
    \<and> a = (if cb = JAck then Some (Join_ok room (card (set (in_room st' room)))
                                    (room_history (roomHistory st) room))
           else None)
    \<and> 1 \<le> card (set (in_room st' room))"
proof -
  from assms(2,3) have ok: "truthy room" "is_string room"
    by simp_all
  from assms(4) have st': "st' = socket_join st sid room"
    and a: "a = (if cb = JAck
                 then Some (Join_ok room (length (allSockets st' room))
                              (room_history (roomHistory st) room))
                 else None)"
    unfolding on_join_served [OF ok] by auto
  have mem: "sid \<in> set (in_room st' room)"
    unfolding st' using assms(1,2) by (intro in_room_join) auto
  have pos: "1 \<le> card (set (in_room st' room))"
    using mem by (metis One_nat_def Suc_leI card_gt_0_iff empty_iff List.finite_set)
  have "room \<in> set (socket_rooms st' sid)"
    unfolding st' using assms(1) by (rule socket_rooms_join)
  then show ?thesis
    using mem a pos by (simp add: allSockets_def length_remdups_card_conv)
qed

theorem join_counts_joiner_witness:
  "JStr (U ''r1'') \<in> set (socket_rooms both_in_r1 (U ''sA''))
   \<and> U ''sA'' \<in> set (in_room both_in_r1 (JStr (U ''r1'')))
   \<and> on_join bob_in_r1 (U ''sA'') (U ''alice'') (JStr (U ''r1'')) JAck
       = (both_in_r1, Some (Join_ok (JStr (U ''r1'')) 2 []),
          [(U ''sB'', User_joined (U ''alice'') (JStr (U ''r1'')))], None)"
proof -
  have run: "on_join bob_in_r1 (U ''sA'') (U ''alice'') (JStr (U ''r1'')) JAck
       = (both_in_r1, Some (Join_ok (JStr (U ''r1'')) 2 []),
          [(U ''sB'', User_joined (U ''alice'') (JStr (U ''r1'')))], None)"
    by (simp add: on_join_def bob_in_r1_def both_in_r1_def socket_join_def update_socket_def
        set_add_def to_room_def in_room_def addresses_def allSockets_def emit_def
        try_reply_cases room_history_def U_def Let_def)
  have conn: "U ''sA'' \<in> fst ` set (sockets bob_in_r1)"
    by (simp add: bob_in_r1_def)
  have name: "U ''r1'' \<noteq> []"
    by (simp add: U_def)
  from join_counts_joiner [OF conn refl name run] run show ?thesis
    by simp
qed

subsection \<open>Leave\<close>

lemma socket_leave_idem:
  "socket_leave (socket_leave st sid room) sid room = socket_leave st sid room"
proof -
  have "map ((\<lambda>(i, s). if i = sid then (i, s\<lparr>rooms := removeAll room (rooms s)\<rparr>) else (i, s))
          \<circ> (\<lambda>(i, s). if i = sid then (i, s\<lparr>rooms := removeAll room (rooms s)\<rparr>) else (i, s))) xs
      = map (\<lambda>(i, s). if i = sid then (i, s\<lparr>rooms := removeAll room (rooms s)\<rparr>) else (i, s)) xs"
    for xs :: "(jsstring \<times> socket) list"
    by (induction xs) auto
  then show ?thesis
    by (simp add: socket_leave_def update_socket_def)
qed

lemma on_leave_outcome:
  "on_leave st sid user room cb
     = (socket_leave st sid room,
        (if cb = JAck
         then Some (Leave_ok room (length (allSockets (socket_leave st sid room) room)))
         else None),
        emit (to_room (socket_leave st sid room) sid room) (User_left user room),
        (if truthy cb \<and> cb \<noteq> JAck then Some TypeError else None))"
  by (auto simp: on_leave_def Let_def try_reply_cases)

lemma to_room_update_socket:
  "to_room (update_socket sid f st) sid room = to_room st sid room"
proof -
  have "filter (\<lambda>i. i \<noteq> sid)
          (map fst (filter (\<lambda>(i, s). if i = sid then addresses room (rooms (f s))
                                       else addresses room (rooms s)) xs))
      = filter (\<lambda>i. i \<noteq> sid) (map fst (filter (\<lambda>(i, s). addresses room (rooms s)) xs))"
    for xs
    by (induction xs) auto
  then show ?thesis
    unfolding to_room_def in_room_update_socket by (simp add: in_room_def)
qed

lemma to_room_leave:
  "to_room (socket_leave st sid room) sid room = to_room st sid room"
  by (simp add: socket_leave_def to_room_update_socket)

text \<open>
  C6, as the code has it. A second \<open>leave\<close> of the same room by the same socket changes
  no state and is acknowledged like the first, with the same member count; but the
  handler emits "user_left" whether or not the socket was in the room, so the sockets
  that remain in the room are notified again, exactly as by the first call. After
  either call the room is not among the rooms of the socket.
\<close>

theorem leave_twice:
  assumes "on_leave st sid user room cb = (st1, a, out, err)"
  shows "on_leave st1 sid user room cb = (st1, a, out, err)
    \<and> a = (if cb = JAck then Some (Leave_ok room (card (set (in_room st1 room)))) else None)
    \<and> out = emit (to_room st sid room) (User_left user room)
    \<and> room \<notin> set (socket_rooms st1 sid)
    \<and> ((\<forall>i rs. room \<noteq> JArr i rs) \<longrightarrow> sid \<notin> set (in_room st1 room))"
proof -
  from assms have st1: "st1 = socket_leave st sid room"
    and a: "a = (if cb = JAck then Some (Leave_ok room (length (allSockets st1 room))) else None)"
    and out: "out = emit (to_room st1 sid room) (User_left user room)"
    and err: "err = (if truthy cb \<and> cb \<noteq> JAck then Some TypeError else None)"
    by (auto simp: on_leave_outcome)
  have same: "socket_leave st1 sid room = st1"
    unfolding st1 by (rule socket_leave_idem)
  have "on_leave st1 sid user room cb = (st1, a, out, err)"
    unfolding on_leave_outcome same a out err ..
  moreover have "(\<forall>i rs. room \<noteq> JArr i rs) \<longrightarrow> sid \<notin> set (in_room st1 room)"
    unfolding st1 by (auto intro: in_room_leave [THEN notE])
  moreover have "room \<notin> set (socket_rooms st1 sid)"
    unfolding st1 by (rule socket_rooms_leave)
  moreover have "out = emit (to_room st sid room) (User_left user room)"
    unfolding out st1 by (simp add: to_room_leave)
  ultimately show ?thesis
    using a by (simp add: allSockets_def length_remdups_card_conv)
qed

theorem leave_twice_witness:
  "on_leave both_in_r1 (U ''sA'') (U ''alice'') (JStr (U ''r1'')) JAck
     = (bob_in_r1, Some (Leave_ok (JStr (U ''r1'')) 1),
        [(U ''sB'', User_left (U ''alice'') (JStr (U ''r1'')))], None)
   \<and> on_leave bob_in_r1 (U ''sA'') (U ''alice'') (JStr (U ''r1'')) JAck
     = (bob_in_r1, Some (Leave_ok (JStr (U ''r1'')) 1),
        [(U ''sB'', User_left (U ''alice'') (JStr (U ''r1'')))], None)"
proof -
  have first: "on_leave both_in_r1 (U ''sA'') (U ''alice'') (JStr (U ''r1'')) JAck
     = (bob_in_r1, Some (Leave_ok (JStr (U ''r1'')) 1),
        [(U ''sB'', User_left (U ''alice'') (JStr (U ''r1'')))], None)"
    by (simp add: on_leave_def bob_in_r1_def both_in_r1_def socket_leave_def update_socket_def
        to_room_def in_room_def addresses_def allSockets_def emit_def try_reply_cases U_def
        Let_def)
  from leave_twice [OF first] first show ?thesis
    by simp
qed

text \<open>
  The claim as stated fails: alice and bob are in \<open>r1\<close>, alice leaves twice, and her
  second request sends bob a second "user_left".
\<close>

theorem leave_twice_counterexample:
  "fst (snd (snd (on_leave
      (fst (on_leave both_in_r1 (U ''sA'') (U ''alice'') (JStr (U ''r1'')) JAck))
      (U ''sA'') (U ''alice'') (JStr (U ''r1'')) JAck)))
     = [(U ''sB'', User_left (U ''alice'') (JStr (U ''r1'')))]"
  by (simp add: on_leave_def both_in_r1_def socket_leave_def update_socket_def
      to_room_def in_room_def addresses_def allSockets_def emit_def try_reply_cases U_def
      Let_def)

subsection \<open>Message\<close>

lemma get_prop_default:
  "get_prop (if truthy payload then payload else JObj 0 []) k = get_prop payload k"
  by (cases payload) auto

lemma on_message_rejected:
  assumes "\<not> truthy (get_prop payload (U ''room'')) \<or> \<not> truthy (get_prop payload (U ''text''))"
  shows "on_message st user payload cb new_id now
           = (st, (if cb = JAck then Some (Ack_error ''room & text required'') else None), [],
              (if truthy cb \<and> cb \<noteq> JAck then Some TypeError else None))"
  using assms unfolding on_message_def Let_def get_prop_default
  by (auto simp: try_reply_cases)

lemma on_message_accepted:
  assumes "truthy (get_prop payload (U ''room''))" and "truthy (get_prop payload (U ''text''))"
  shows "on_message st user payload cb new_id now
           = (let room = get_prop payload (U ''room'');
                  m = \<lparr>msg_id = new_id, msg_room = room, msg_text = get_prop payload (U ''text''),
                       msg_author = user,
                       msg_meta = (if truthy (get_prop payload (U ''meta''))
                                   then get_prop payload (U ''meta'') else JNull),
                       msg_ts = now\<rparr>
              in (st\<lparr>roomHistory := pushRoomMessage (roomHistory st) room m\<rparr>,
                  (if cb = JAck then Some (Message_ok new_id) else None),
                  emit (in_room st room) (Message m),
                  (if truthy cb \<and> cb \<noteq> JAck then Some TypeError else None)))"
  using assms unfolding on_message_def Let_def get_prop_default
  by (auto simp: try_reply_cases)

lemma pushed_is_last:
  "room_history (pushRoomMessage h room m) room \<noteq> []
   \<and> last (room_history (pushRoomMessage h room m) room) = m"
proof (cases "length (room_history h room) < ROOM_HISTORY_LIMIT")
  case True
  then show ?thesis
    by (simp add: room_history_push_same)
next
  case False
  then have "room_history h room \<noteq> []"
    by (auto simp: ROOM_HISTORY_LIMIT_def)
  with False show ?thesis
    by (simp add: room_history_push_same last_tl)
qed

text \<open>
  C3, as the code has it. When a message request is acknowledged with
  \<^verbatim>\<open>{ok: true, id}\<close>, the newest entry of the history kept under the request's room
  is the message with that id, the sender's username as author and the request's room
  and text; membership is untouched; and the "message" event with that entry is
  delivered to the sockets that \<^verbatim>\<open>io.in(room)\<close> addresses and to no other. For a room
  that is not an array these are exactly the sockets that are in the room: the sender
  if and only if the sender is in the room itself, and no socket outside the room. An
  array is taken as a list of rooms: the event goes to the sockets that are in one of the
  rooms listed, and to every connected socket when the list is empty.
\<close>

theorem message_round_trip:
  assumes "on_message st user payload cb new_id now = (st', Some (Message_ok i), out, err)"
  shows "\<exists>m. room_history (roomHistory st') (get_prop payload (U ''room'')) \<noteq> []
      \<and> last (room_history (roomHistory st') (get_prop payload (U ''room''))) = m
      \<and> msg_id m = i \<and> msg_author m = user
      \<and> msg_room m = get_prop payload (U ''room'') \<and> truthy (msg_room m)
      \<and> msg_text m = get_prop payload (U ''text'') \<and> truthy (msg_text m)
      \<and> sockets st' = sockets st
      \<and> out = emit (in_room st (msg_room m)) (Message m)
      \<and> ((\<forall>a rs. msg_room m \<noteq> JArr a rs) \<longrightarrow>
           (\<forall>p e. (p, e) \<in> set out \<longleftrightarrow> p \<in> set (members st (msg_room m)) \<and> e = Message m))
      \<and> (\<forall>a rs. msg_room m = JArr a rs \<longrightarrow>
           (\<forall>p e. (p, e) \<in> set out \<longleftrightarrow>
              (\<exists>s. (p, s) \<in> set (sockets st) \<and> (rs = [] \<or> (\<exists>r \<in> set rs. r \<in> set (rooms s))))
              \<and> e = Message m))"
proof (cases "truthy (get_prop payload (U ''room'')) \<and> truthy (get_prop payload (U ''text''))")
  case False
  then have "on_message st user payload cb new_id now
      = (st, (if cb = JAck then Some (Ack_error ''room & text required'') else None), [],
         (if truthy cb \<and> cb \<noteq> JAck then Some TypeError else None))"
    by (intro on_message_rejected) auto
  with assms show ?thesis
    by (simp split: if_splits)
next
  case True
  define room where "room = get_prop payload (U ''room'')"
  define m where "m = \<lparr>msg_id = new_id, msg_room = room, msg_text = get_prop payload (U ''text''),
      msg_author = user,
      msg_meta = (if truthy (get_prop payload (U ''meta'')) then get_prop payload (U ''meta'') else JNull),
      msg_ts = now\<rparr>"
  from True have "on_message st user payload cb new_id now
      = (st\<lparr>roomHistory := pushRoomMessage (roomHistory st) room m\<rparr>,
         (if cb = JAck then Some (Message_ok new_id) else None),
         emit (in_room st room) (Message m),
         (if truthy cb \<and> cb \<noteq> JAck then Some TypeError else None))"
    by (simp add: on_message_accepted room_def m_def Let_def)
  with assms have st': "st' = st\<lparr>roomHistory := pushRoomMessage (roomHistory st) room m\<rparr>"
    and i: "i = new_id" and out: "out = emit (in_room st room) (Message m)"
    by (auto split: if_splits)
  have hist: "room_history (roomHistory st') room \<noteq> []"
    "last (room_history (roomHistory st') room) = m"
    unfolding st' by (simp_all add: pushed_is_last)
  have fields: "msg_id m = i" "msg_author m = user" "msg_room m = room"
    "msg_text m = get_prop payload (U ''text'')"
    by (simp_all add: m_def i)
  have same: "sockets st' = sockets st"
    by (simp add: st')
  have single: "(\<forall>a rs. room \<noteq> JArr a rs) \<longrightarrow>
      (\<forall>p e. (p, e) \<in> set out \<longleftrightarrow> p \<in> set (members st room) \<and> e = Message m)"
    by (auto simp: out emit_iff in_room_single)
  have listed: "\<forall>a rs. room = JArr a rs \<longrightarrow>
      (\<forall>p e. (p, e) \<in> set out \<longleftrightarrow>
         (\<exists>s. (p, s) \<in> set (sockets st) \<and> (rs = [] \<or> (\<exists>r \<in> set rs. r \<in> set (rooms s))))
         \<and> e = Message m)"
    by (auto simp: out emit_iff in_room_iff addresses_list)
  show ?thesis
  proof (intro exI [of _ m] conjI)
    show "truthy (msg_room m)" "truthy (msg_text m)"
      using True by (simp_all add: fields room_def)
  qed (use hist fields same out single listed in \<open>simp_all add: room_def [symmetric]\<close>)
qed

lemma alice_says_hi:
  "on_message st (U ''alice'') say_hi JAck (U ''m1'') (U ''t1'')
     = (st\<lparr>roomHistory := pushRoomMessage (roomHistory st) (JStr (U ''r1'')) hi_msg\<rparr>,
        Some (Message_ok (U ''m1'')),
        emit (in_room st (JStr (U ''r1''))) (Message hi_msg), None)"
  by (simp add: on_message_accepted say_hi_def hi_msg_def U_def Let_def)

theorem message_round_trip_witness:
  "fst (snd (on_message both_in_r1 (U ''alice'') say_hi JAck (U ''m1'') (U ''t1'')))
     = Some (Message_ok (U ''m1''))
   \<and> fst (snd (snd (on_message both_in_r1 (U ''alice'') say_hi JAck (U ''m1'') (U ''t1''))))
     = [(U ''sA'', Message hi_msg), (U ''sB'', Message hi_msg)]
   \<and> last (room_history
        (roomHistory (fst (on_message both_in_r1 (U ''alice'') say_hi JAck (U ''m1'') (U ''t1''))))
        (JStr (U ''r1''))) = hi_msg"
proof -
  let ?res = "on_message both_in_r1 (U ''alice'') say_hi JAck (U ''m1'') (U ''t1'')"
  have run: "?res = (fst ?res, Some (Message_ok (U ''m1'')), fst (snd (snd ?res)), snd (snd (snd ?res)))"
    by (simp add: alice_says_hi)
  have room: "get_prop say_hi (U ''room'') = JStr (U ''r1'')"
    by (simp add: say_hi_def U_def)
  have out: "fst (snd (snd ?res)) = [(U ''sA'', Message hi_msg), (U ''sB'', Message hi_msg)]"
    unfolding alice_says_hi
    by (simp add: both_in_r1_def in_room_def addresses_def emit_def U_def)
  from message_round_trip [OF run] obtain m
    where "last (room_history (roomHistory (fst ?res)) (JStr (U ''r1''))) = m"
      and "fst (snd (snd ?res)) = emit (in_room both_in_r1 (msg_room m)) (Message m)"
    unfolding room by blast
  with out have "last (room_history (roomHistory (fst ?res)) (JStr (U ''r1''))) = hi_msg"
    by (cases "in_room both_in_r1 (msg_room m)") (auto simp: emit_def)
  with out show ?thesis
    by (simp add: alice_says_hi)
qed

text \<open>
  The claim as stated fails: alice is connected but has not joined \<open>r1\<close>, where bob is.
  Her message to \<open>r1\<close> is acknowledged with \<^verbatim>\<open>{ok: true, id}\<close> and stored, and it is
  delivered to bob only, not to alice, the sender.
\<close>

theorem message_round_trip_counterexample:
  "U ''sA'' \<in> fst ` set (sockets bob_in_r1)
   \<and> fst (snd (on_message bob_in_r1 (U ''alice'') say_hi JAck (U ''m1'') (U ''t1'')))
     = Some (Message_ok (U ''m1''))
   \<and> fst (snd (snd (on_message bob_in_r1 (U ''alice'') say_hi JAck (U ''m1'') (U ''t1''))))
     = [(U ''sB'', Message hi_msg)]"
  unfolding alice_says_hi
  by (simp add: bob_in_r1_def in_room_def addresses_def emit_def U_def)

text \<open>
  A room given as the array of the one room \<open>r1\<close>: bob's request is acknowledged and
  reaches both members of \<open>r1\<close>, while the entry is kept under the array and the
  history of \<open>r1\<close> stays empty.
\<close>

lemma message_to_list_example:
  "fst (snd (on_message both_in_r1 (U ''bob'') say_hi_to_list JAck (U ''m1'') (U ''t1'')))
     = Some (Message_ok (U ''m1''))"
  "map fst (fst (snd (snd
      (on_message both_in_r1 (U ''bob'') say_hi_to_list JAck (U ''m1'') (U ''t1'')))))
     = [U ''sA'', U ''sB'']"
  "room_history (roomHistory (fst
      (on_message both_in_r1 (U ''bob'') say_hi_to_list JAck (U ''m1'') (U ''t1''))))
      (JStr (U ''r1'')) = []"
  "map msg_text (room_history (roomHistory (fst
      (on_message both_in_r1 (U ''bob'') say_hi_to_list JAck (U ''m1'') (U ''t1''))))
      (JArr 2 [JStr (U ''r1'')])) = [JStr (U ''hi'')]"
  by (simp_all add: on_message_def say_hi_to_list_def both_in_r1_def pushRoomMessage_def
      room_history_def ROOM_HISTORY_LIMIT_def in_room_def addresses_def emit_def
      try_reply_cases U_def Let_def)




text \<open>
  As in the join handler, a second argument that is neither falsy nor the
  acknowledgment function makes the listener end with a TypeError; a message that
  passed the guard has been stored and emitted by then.
\<close>

lemma message_not_callable:
  assumes "truthy cb" and "cb \<noteq> JAck"
  shows "snd (snd (snd (on_message st user payload cb new_id now))) = Some TypeError"
proof (cases "truthy (get_prop payload (U ''room'')) \<and> truthy (get_prop payload (U ''text''))")
  case True
  with assms show ?thesis
    by (simp add: on_message_accepted Let_def)
next
  case False
  then have "\<not> truthy (get_prop payload (U ''room'')) \<or> \<not> truthy (get_prop payload (U ''text''))"
    by simp
  with assms show ?thesis
    by (simp add: on_message_rejected)
qed

subsection \<open>Typing\<close>

lemma typing_without_room:
  assumes "payload \<noteq> JUndefined" and "payload \<noteq> JNull"
    and "\<not> truthy (get_prop payload (U ''room''))"
  shows "on_typing st sid user payload = Inr []"
  using assms by (simp add: on_typing_def)

lemma typing_forwarded:
  assumes "truthy (get_prop payload (U ''room''))"
  shows "on_typing st sid user payload
           = Inr (emit (to_room st sid (get_prop payload (U ''room'')))
                    (Typing user (get_prop payload (U ''room''))
                       (truthy (get_prop payload (U ''isTyping'')))))"
proof -
  from assms have "payload \<noteq> JUndefined" and "payload \<noteq> JNull"
    by auto
  with assms show ?thesis
    by (simp add: on_typing_def Let_def)
qed

lemma typing_recipients:
  assumes "on_typing st sid user payload = Inr out"
  shows "(p, e) \<in> set out \<longleftrightarrow>
     truthy (get_prop payload (U ''room''))
     \<and> p \<in> set (in_room st (get_prop payload (U ''room''))) \<and> p \<noteq> sid
     \<and> e = Typing user (get_prop payload (U ''room'')) (truthy (get_prop payload (U ''isTyping'')))"
proof (cases "truthy (get_prop payload (U ''room''))")
  case True
  with assms show ?thesis
    by (auto simp: typing_forwarded emit_iff to_room_iff)
next
  case False
  with assms show ?thesis
    by (auto simp: on_typing_def split: if_splits)
qed

lemma typing_example:
  "on_typing both_in_r1 (U ''sA'') (U ''alice'')
     (JObj 1 [(U ''room'', JStr (U ''r1'')), (U ''isTyping'', JNum (Finite 1))])
     = Inr [(U ''sB'', Typing (U ''alice'') (JStr (U ''r1'')) True)]"
  "on_typing both_in_r1 (U ''sA'') (U ''alice'') (JObj 1 [(U ''isTyping'', JBool True)]) = Inr []"
  by (simp_all add: on_typing_def both_in_r1_def to_room_def in_room_def addresses_def emit_def U_def Let_def)

text \<open>
  C10. A typing request that carries no payload at all has no room field, and the
  claim wants it ignored in silence. The handler destructures its parameter without a
  default (the message handler has \<^verbatim>\<open>payload || {}\<close>) and outside any \<^verbatim>\<open>try\<close>: on an
  undefined or null payload it raises a TypeError instead of returning. For every
  other payload the handler does what the claim says (\<open>typing_without_room\<close>,
  \<open>typing_forwarded\<close>, \<open>typing_recipients\<close>): without a room nothing is delivered, and
  with one the event goes to the sockets that \<^verbatim>\<open>socket.to(room)\<close> addresses, the
  members of the room but the sender, with \<^verbatim>\<open>isTyping\<close> as a boolean.
\<close>

theorem typing_without_payload:
  "on_typing st sid user JUndefined = Inl TypeError
   \<and> on_typing st sid user JNull = Inl TypeError"
  by (simp add: on_typing_def)

subsection \<open>Disconnect\<close>

lemma socket_rooms_closed: "socket_rooms (fst (close_socket st sid user)) sid = []"
proof -
  have "map_of (filter (\<lambda>(i, s). i \<noteq> sid) xs) sid = None" for xs :: "(jsstring \<times> socket) list"
    by (induction xs) auto
  then show ?thesis
    by (simp add: close_socket_def socket_rooms_def Let_def)
qed

lemma in_room_closed:
  "i \<in> set (in_room (fst (close_socket st sid user)) room) \<longleftrightarrow>
     i \<in> set (in_room st room) \<and> i \<noteq> sid"
  by (force simp: close_socket_def in_room_def Let_def)

lemma close_socket_silent: "snd (close_socket st sid user) = []"
proof -
  have "on_disconnect (fst (close_socket st sid user)) sid user = []"
    unfolding on_disconnect_def socket_rooms_closed by (simp add: notify_left_def)
  then show ?thesis
    by (simp add: close_socket_def Let_def)
qed

lemma notify_left_iff:
  "(p, e) \<in> set (notify_left st sid user rs) \<longleftrightarrow>
     (\<exists>room. room \<in> set rs \<and> room \<noteq> JStr sid
        \<and> p \<in> set (in_room st room) \<and> p \<noteq> sid \<and> e = User_left user room)"
  by (auto simp: notify_left_def emit_iff to_room_iff split: if_splits)

lemma distinct_in_room:
  "distinct (map fst (sockets st)) \<Longrightarrow> distinct (in_room st room)"
  unfolding in_room_def by (rule distinct_map_filter)

lemma count_distinct: "distinct xs \<Longrightarrow> x \<in> set xs \<Longrightarrow> count_list xs x = 1"
  by (induction xs) auto

lemma count_emit:
  "count_list (emit targets ev) (p, e) = (if e = ev then count_list targets p else 0)"
  by (induction targets) (auto simp: emit_def)

lemma count_notify_left:
  assumes "distinct rs"
  shows "count_list (notify_left st sid user rs) (p, User_left user room)
     = (if room \<in> set rs \<and> room \<noteq> JStr sid then count_list (to_room st sid room) p else 0)"
  using assms
proof (induction rs)
  case Nil
  then show ?case
    by (simp add: notify_left_def)
next
  case (Cons r rs)
  have step: "notify_left st sid user (r # rs)
      = (if r = JStr sid then [] else emit (to_room st sid r) (User_left user r))
        @ notify_left st sid user rs"
    by (simp add: notify_left_def)
  from Cons show ?case
    unfolding step by (auto simp: count_emit)
qed

text \<open>
  Run over the rooms a socket is in while it is still connected, the loop of the
  listener sends each other socket of each of these rooms one "user_left" for the room.
\<close>

lemma notify_left_once:
  assumes "distinct (map fst (sockets st))" and "distinct (socket_rooms st sid)"
    and "room \<in> set (socket_rooms st sid)" and "room \<noteq> JStr sid"
    and "p \<in> set (in_room st room)" and "p \<noteq> sid"
  shows "count_list (notify_left st sid user (socket_rooms st sid)) (p, User_left user room) = 1"
proof -
  have "distinct (to_room st sid room)"
    unfolding to_room_def using assms(1) by (simp add: distinct_in_room)
  moreover have "p \<in> set (to_room st sid room)"
    using assms(5,6) by (simp add: to_room_iff)
  ultimately have "count_list (to_room st sid room) p = 1"
    by (rule count_distinct)
  with assms(2,3,4) show ?thesis
    by (simp add: count_notify_left)
qed

text \<open>
  C2. Alice and bob are in \<open>r1\<close> and alice's socket closes. She is out of every room
  afterwards; but the listener is registered for "disconnect", which the library fires
  after it has emptied \<^verbatim>\<open>socket.rooms\<close>, so its loop runs over no room and bob is sent
  nothing. The same loop over the rooms alice was in before the close, last line, is
  the one "user_left" the claim and the listener's comment want.
\<close>

theorem disconnect_notifies_nobody:
  "U ''sB'' \<in> set (in_room both_in_r1 (JStr (U ''r1'')))
   \<and> snd (close_socket both_in_r1 (U ''sA'') (U ''alice'')) = []
   \<and> in_room (fst (close_socket both_in_r1 (U ''sA'') (U ''alice''))) (JStr (U ''r1'')) = [U ''sB'']
   \<and> notify_left both_in_r1 (U ''sA'') (U ''alice'') (socket_rooms both_in_r1 (U ''sA''))
       = [(U ''sB'', User_left (U ''alice'') (JStr (U ''r1'')))]"
  by (simp add: close_socket_def on_disconnect_def notify_left_def socket_rooms_def
      both_in_r1_def to_room_def in_room_def addresses_def emit_def U_def Let_def)

subsection \<open>History\<close>

lemma push_all_same_room:
  assumes "length (room_history h room) \<le> ROOM_HISTORY_LIMIT"
  shows "room_history (push_all h (map (Pair room) ms)) room
     = drop (length (room_history h room @ ms) - ROOM_HISTORY_LIMIT) (room_history h room @ ms)"
  using assms
proof (induction ms arbitrary: h)
  case Nil
  then show ?case
    by simp
next
  case (Cons m ms)
  let ?old = "room_history h room"
  let ?h = "pushRoomMessage h room m"
  show ?case
  proof (cases "length ?old < ROOM_HISTORY_LIMIT")
    case True
    then have new: "room_history ?h room = ?old @ [m]"
      by (simp add: room_history_push_same)
    with True have "length (room_history ?h room) \<le> ROOM_HISTORY_LIMIT"
      by simp
    from Cons.IH [OF this] show ?thesis
      by (simp add: new)
  next
    case False
    with Cons.prems have full: "length ?old = ROOM_HISTORY_LIMIT"
      by simp
    then obtain x rest where old: "?old = x # rest"
      by (cases ?old) (auto simp: ROOM_HISTORY_LIMIT_def)
    from False have new: "room_history ?h room = rest @ [m]"
      by (simp add: room_history_push_same old)
    from full old have "length (room_history ?h room) \<le> ROOM_HISTORY_LIMIT"
      by (simp add: new)
    from Cons.IH [OF this] have "room_history (push_all ?h (map (Pair room) ms)) room
        = drop (length (rest @ [m] @ ms) - ROOM_HISTORY_LIMIT) (rest @ [m] @ ms)"
      by (simp add: new)
    moreover have "length (?old @ m # ms) - ROOM_HISTORY_LIMIT
        = Suc (length (rest @ [m] @ ms) - ROOM_HISTORY_LIMIT)"
      using full old by auto
    ultimately show ?thesis
      by (simp add: old)
  qed
qed

text \<open>
  C5. When 101 messages are appended to a room that has no history yet, the history
  handler answers a request with a callback with the last 100 of them in the order
  they were sent: the oldest one, and only it, is gone.
\<close>

theorem capacity_eviction:
  assumes "roomHistory st room = None" and "length ms = 101"
  shows "on_history (st\<lparr>roomHistory := push_all (roomHistory st) (map (Pair room) ms)\<rparr>) room JAck
           = Inr (Some (History_ok room (drop 1 ms)))
    \<and> length (drop 1 ms) = 100
    \<and> ms = hd ms # drop 1 ms"
proof -
  from assms(1) have fresh: "room_history (roomHistory st) room = []"
    by (simp add: room_history_def)
  then have "room_history (push_all (roomHistory st) (map (Pair room) ms)) room
      = drop (length ms - ROOM_HISTORY_LIMIT) ms"
    using push_all_same_room [of "roomHistory st" room ms] by simp
  with assms(2) have "room_history (push_all (roomHistory st) (map (Pair room) ms)) room = drop 1 ms"
    by (simp add: ROOM_HISTORY_LIMIT_def)
  moreover from assms(2) have "ms = hd ms # drop 1 ms"
    by (cases ms) auto
  ultimately show ?thesis
    using assms(2) by (simp add: on_history_def cb_call_def)
qed

theorem capacity_eviction_witness:
  "on_history (init_server\<lparr>roomHistory :=
        push_all (roomHistory init_server) (map (Pair (JStr (U ''r1''))) run_of_101)\<rparr>)
      (JStr (U ''r1'')) JAck
     = Inr (Some (History_ok (JStr (U ''r1'')) (map numbered [1..<101])))"
proof -
  have fresh: "roomHistory init_server (JStr (U ''r1'')) = None"
    by (simp add: init_server_def)
  have len: "length run_of_101 = 101"
    by (simp add: run_of_101_def)
  have "drop 1 run_of_101 = map numbered [1..<101]"
    by (simp add: run_of_101_def drop_map)
  with capacity_eviction [OF fresh len] show ?thesis
    by simp
qed

subsection \<open>Reachable states\<close>

lemma roomHistory_on_join: "roomHistory (fst (on_join st sid user room cb)) = roomHistory st"
  by (simp add: on_join_def socket_join_def Let_def split: prod.splits)

lemma roomHistory_on_leave: "roomHistory (fst (on_leave st sid user room cb)) = roomHistory st"
  by (simp add: on_leave_def socket_leave_def Let_def split: prod.splits)

lemma roomHistory_connect: "roomHistory (fst (connect st sid auth)) = roomHistory st"
  by (simp add: connect_def split: sum.splits)

lemma roomHistory_close: "roomHistory (fst (close_socket st sid user)) = roomHistory st"
  by (simp add: close_socket_def Let_def)

lemma on_message_bound:
  assumes "length (room_history (roomHistory st) r) \<le> ROOM_HISTORY_LIMIT"
  shows "length (room_history (roomHistory (fst (on_message st user payload cb new_id now))) r)
           \<le> ROOM_HISTORY_LIMIT"
proof (cases "truthy (get_prop payload (U ''room'')) \<and> truthy (get_prop payload (U ''text''))")
  case True
  with assms show ?thesis
    by (simp add: on_message_accepted Let_def room_history_push_bound)
next
  case False
  then have "fst (on_message st user payload cb new_id now) = st"
    by (subst on_message_rejected) auto
  with assms show ?thesis
    by simp
qed

lemma settle_Inr: "settle res = Inr st1 \<Longrightarrow> st1 = fst res"
  by (auto simp: settle_def split: prod.splits option.splits)

lemma step_cases:
  assumes "step st (sid, req) = Inr st1"
  obtains (same) "st1 = st"
    | (connect) auth where "map_of (sockets st) sid = None" "st1 = fst (connect st sid auth)"
    | (join) user room cb where "st1 = fst (on_join st sid user room cb)"
    | (leave) user room cb where "st1 = fst (on_leave st sid user room cb)"
    | (send) user payload cb new_id now where "st1 = fst (on_message st user payload cb new_id now)"
    | (close) user where "st1 = fst (close_socket st sid user)"
proof (cases "map_of (sockets st) sid")
  case None
  with assms show ?thesis
    by (cases req) (auto intro: same connect)
next
  case (Some s)
  with assms show ?thesis
    by (cases req)
       (auto intro: same join leave send close dest: settle_Inr split: sum.splits)
qed

lemma step_bound:
  assumes "step st input = Inr st1"
    and "length (room_history (roomHistory st) r) \<le> ROOM_HISTORY_LIMIT"
  shows "length (room_history (roomHistory st1) r) \<le> ROOM_HISTORY_LIMIT"
proof -
  obtain sid req where "input = (sid, req)"
    by (cases input)
  with assms(1) have "step st (sid, req) = Inr st1"
    by simp
  then show ?thesis
    using assms(2)
    by (cases rule: step_cases)
       (simp_all add: roomHistory_on_join roomHistory_on_leave roomHistory_connect
          roomHistory_close on_message_bound)
qed

lemma run_bound:
  "run st inputs = Inr st1 \<Longrightarrow>
   length (room_history (roomHistory st) r) \<le> ROOM_HISTORY_LIMIT \<Longrightarrow>
   length (room_history (roomHistory st1) r) \<le> ROOM_HISTORY_LIMIT"
proof (induction inputs arbitrary: st)
  case Nil
  then show ?case
    by simp
next
  case (Cons input inputs)
  from Cons.prems(1) obtain st2 where "step st input = Inr st2" and "run st2 inputs = Inr st1"
    by (auto split: sum.splits)
  with Cons.IH Cons.prems(2) show ?case
    by (blast intro: step_bound)
qed

text \<open>
  The bound of C1 for the server as a whole: whatever sequence of connections, requests
  and disconnections it has served since it started, no room's history is longer than
  \<open>ROOM_HISTORY_LIMIT\<close>.
\<close>

lemma server_history_bounded:
  assumes "run init_server inputs = Inr st"
  shows "length (room_history (roomHistory st) r) \<le> ROOM_HISTORY_LIMIT"
  using assms by (rule run_bound) (simp add: init_server_def room_history_def)

text \<open>
  A typing request without payload ends the process, whatever the state: the server
  serves no input after it.
\<close>

lemma typing_without_payload_ends_run:
  assumes "map_of (sockets st) sid = Some s"
  shows "run st ((sid, Typing_request []) # inputs) = Inl TypeError"
  using assms by (simp add: arg_def on_typing_def)

lemma wf_connect:
  assumes "wf_server st" and "map_of (sockets st) sid = None"
  shows "wf_server (fst (connect st sid auth))"
proof -
  from assms(2) have "sid \<notin> fst ` set (sockets st)"
    by (simp add: map_of_eq_None_iff)
  with assms(1) show ?thesis
    by (auto simp: connect_def wf_server_def wf_socket_def split: sum.splits)
qed

lemma wf_update_socket:
  assumes "wf_server st" and "\<And>s. wf_socket s \<Longrightarrow> wf_socket (f s)"
  shows "wf_server (update_socket sid f st)"
proof -
  have ids: "fst \<circ> (\<lambda>(i, s). if i = sid then (i, f s) else (i, s)) = fst"
    by (auto simp: fun_eq_iff)
  have "list_all (\<lambda>(i, s). wf_socket s) xs \<Longrightarrow>
      list_all (\<lambda>(i, s). wf_socket s) (map (\<lambda>(i, s). if i = sid then (i, f s) else (i, s)) xs)"
    for xs :: "(jsstring \<times> socket) list"
    by (induction xs) (auto simp: assms(2) split: if_splits)
  with assms(1) show ?thesis
    by (simp add: wf_server_def update_socket_def ids)
qed

lemma wf_on_join:
  assumes "wf_server st"
  shows "wf_server (fst (on_join st sid user room cb))"
proof (cases "\<not> truthy room \<or> \<not> is_string room")
  case True
  with assms show ?thesis
    by (simp add: on_join_refused)
next
  case False
  then have "wf_socket (s\<lparr>rooms := set_add room (rooms s)\<rparr>)" if "wf_socket s" for s
    using that by (auto simp: wf_socket_def set_add_def)
  with assms have "wf_server (socket_join st sid room)"
    unfolding socket_join_def by (rule wf_update_socket)
  with False show ?thesis
    by (simp add: on_join_served)
qed

lemma wf_on_leave:
  assumes "wf_server st"
  shows "wf_server (fst (on_leave st sid user room cb))"
proof -
  have "wf_socket (s\<lparr>rooms := removeAll room (rooms s)\<rparr>)" if "wf_socket s" for s
    using that by (auto simp: wf_socket_def distinct_removeAll list_all_iff)
  with assms have "wf_server (socket_leave st sid room)"
    unfolding socket_leave_def by (rule wf_update_socket)
  then show ?thesis
    by (simp add: on_leave_outcome)
qed

lemma wf_on_message:
  "wf_server st \<Longrightarrow> wf_server (fst (on_message st user payload cb new_id now))"
  by (simp add: on_message_def wf_server_def Let_def split: prod.splits)

lemma wf_close:
  assumes "wf_server st"
  shows "wf_server (fst (close_socket st sid user))"
  using assms by (auto simp: close_socket_def wf_server_def Let_def distinct_map_filter list_all_iff)

lemma wf_step:
  assumes "step st input = Inr st1" and "wf_server st"
  shows "wf_server st1"
proof -
  obtain sid req where "input = (sid, req)"
    by (cases input)
  with assms(1) have "step st (sid, req) = Inr st1"
    by simp
  then show ?thesis
    using assms(2)
    by (cases rule: step_cases)
       (simp_all add: wf_connect wf_on_join wf_on_leave wf_on_message wf_close)
qed

lemma wf_run: "run st inputs = Inr st1 \<Longrightarrow> wf_server st \<Longrightarrow> wf_server st1"
proof (induction inputs arbitrary: st)
  case Nil
  then show ?case
    by simp
next
  case (Cons input inputs)
  from Cons.prems(1) obtain st2 where "step st input = Inr st2" and "run st2 inputs = Inr st1"
    by (auto split: sum.splits)
  with Cons.IH Cons.prems(2) show ?case
    by (blast intro: wf_step)
qed

lemma wf_reachable: "run init_server inputs = Inr st \<Longrightarrow> wf_server st"
  by (erule wf_run) (simp add: wf_server_def init_server_def)

lemma wf_socket_rooms:
  assumes "wf_server st"
  shows "distinct (socket_rooms st sid)"
proof (cases "map_of (sockets st) sid")
  case None
  then show ?thesis
    by (simp add: socket_rooms_def)
next
  case (Some s)
  then have "(sid, s) \<in> set (sockets st)"
    by (rule map_of_SomeD)
  with assms have "wf_socket s"
    by (auto simp: wf_server_def list_all_iff)
  with Some show ?thesis
    by (simp add: socket_rooms_def wf_socket_def)
qed

text \<open>
  Only strings name rooms that have members: a message or a typing signal addressed to
  a value that is neither a string nor an array is delivered to nobody.
\<close>

lemma wf_members_of_strings:
  assumes "wf_server st" and "\<not> is_string room"
  shows "members st room = []"
proof -
  have "\<not> (room \<in> set (rooms s))" if "(i, s) \<in> set (sockets st)" for i s
    using that assms by (auto simp: wf_server_def wf_socket_def list_all_iff)
  then show ?thesis
    by (auto simp: members_def filter_empty_conv)
qed

end
